theory Spec2Isabelle
  imports Complex_Main
begin

section \<open>Example workloads (tasks.py)\<close>

text \<open>
  Python exceptions that the task functions can raise by themselves: the interpreter's
  recursion limit (\<open>RecursionError\<close>) and the conversion of an integer that is too large
  for a double (\<open>OverflowError\<close>, raised by \<open>math.sqrt\<close>).
\<close>

datatype py_error = RecursionError | OverflowError

subsection \<open>calculate_fibonacci\<close>

text \<open>
  Python allows only a bounded number of nested calls. In the functions below the first
  argument \<open>depth\<close> is the number of nested levels that the interpreter still allows inside
  the body of \<open>calculate_fibonacci\<close> (the recursion limit minus the level of the frame of
  \<open>calculate_fibonacci\<close> itself). The interpreter counts a level for every Python frame and,
  while it lasts, for every call of a built-in function and every comparison that is not
  yet specialised for its operand types. Going beyond the limit raises \<open>RecursionError\<close>.

  \<open>fib_recursive\<close> is the nested function of \<open>calculate_fibonacci\<close>; its first argument is the
  number of levels left when it is called, and its frame takes one of them. A
  \<open>RecursionError\<close> propagates through \<open>fib_recursive(num - 1) + fib_recursive(num - 2)\<close> from
  the operand evaluated first. The comparison \<open>num <= 1\<close> takes a level of its own only the
  first few times the function body runs; \<open>calculate_fibonacci\<close> calls \<open>fib_recursive\<close> only
  with \<open>num > 30\<close>, where these first comparisons happen in the outermost frames, far from
  the frame in which the recursion is deepest, so they do not change the outcome.
\<close>

fun fib_recursive :: "nat \<Rightarrow> int \<Rightarrow> py_error + int" where
  "fib_recursive 0 num = Inl RecursionError"
| "fib_recursive (Suc depth) num =
     (if num \<le> 1 then Inr num
      else (case fib_recursive depth (num - 1) of
              Inl e \<Rightarrow> Inl e
            | Inr x \<Rightarrow> (case fib_recursive depth (num - 2) of
                         Inl e \<Rightarrow> Inl e
                       | Inr y \<Rightarrow> Inr (x + y))))"

text \<open>
  \<open>fib_iterative\<close>: the pair \<open>(a, b)\<close> is updated once for every element of
  \<open>range(2, num + 1)\<close>. The helper is called once, so nothing in it is specialised: its
  frame takes one level and the comparison \<open>num <= 1\<close> a second one (as does the call of
  \<open>range\<close> afterwards). With fewer than two levels left the call raises \<open>RecursionError\<close>.
\<close>

definition fib_step :: "int \<Rightarrow> int \<times> int \<Rightarrow> int \<times> int" where
  "fib_step i ab = (snd ab, fst ab + snd ab)"

definition fib_iterative :: "nat \<Rightarrow> int \<Rightarrow> py_error + int" where
  "fib_iterative depth num =
     (if depth < 2 then Inl RecursionError
      else if num \<le> 1 then Inr num
      else Inr (snd (fold fib_step [2..num] (0, 1))))"

record fibonacci_result =
  fibonacci_number :: int
  position :: int
  fib_execution_time :: real

text \<open>
  The clock is outside the model: \<open>elapsed\<close> is the rounded difference of the two readings
  of \<open>time.time()\<close>. The first statement of the body, \<open>start_time = time.time()\<close>, is a call
  of a built-in function and needs one level, so with no level left \<open>calculate_fibonacci\<close>
  raises \<open>RecursionError\<close> before either helper is called. The calls after the branch
  (\<open>time.time()\<close> and \<open>round(execution_time, 2)\<close>) need no more levels than a branch that
  has returned has already used.
\<close>

definition calculate_fibonacci :: "nat \<Rightarrow> real \<Rightarrow> int \<Rightarrow> py_error + fibonacci_result" where
  "calculate_fibonacci depth elapsed n =
     (if depth = 0 then Inl RecursionError
      else (case (if n \<le> 30 then fib_iterative depth n else fib_recursive depth n) of
              Inl e \<Rightarrow> Inl e
            | Inr r \<Rightarrow> Inr \<lparr>fibonacci_number = r, position = n,
                            fib_execution_time = elapsed\<rparr>))"

text \<open>The mathematical Fibonacci sequence, as the reference for the two branches.\<close>

fun fibonacci :: "nat \<Rightarrow> nat" where
  "fibonacci 0 = 0"
| "fibonacci (Suc 0) = 1"
| "fibonacci (Suc (Suc n)) = fibonacci (Suc n) + fibonacci n"

subsection \<open>Decimal rendering of integers (Python's \<open>str\<close> and f-strings)\<close>

definition digit :: "nat \<Rightarrow> char" where
  "digit d = ''0123456789'' ! d"

function str_nat :: "nat \<Rightarrow> string" where
  "str_nat n = (if n < 10 then [digit n] else str_nat (n div 10) @ [digit (n mod 10)])"
  by pat_completeness auto
termination
  by (relation "measure id") auto

declare str_nat.simps [simp del]

definition str_int :: "int \<Rightarrow> string" where
  "str_int i = (if i < 0 then CHR ''-'' # str_nat (nat (- i)) else str_nat (nat i))"

subsection \<open>find_primes_in_range\<close>

text \<open>
  The nested \<open>is_prime\<close> bounds its trial division by \<open>int(math.sqrt(n))\<close>, a computation
  on IEEE 754 doubles. It is modelled exactly, on integers: \<open>math.sqrt\<close> first converts the
  Python integer to a double (round to nearest, ties to even, on 53 significant bits, and
  \<open>OverflowError\<close> when the rounded value reaches \<open>2 ^ 1024\<close>), then takes the correctly
  rounded square root, and \<open>int\<close> truncates it. For \<open>n \<ge> 1\<close> the converted value is itself an
  integer, so natural numbers suffice.
\<close>





















subsection \<open>fetch_weather_for_cities\<close>

text \<open>
  The weather service is outside the program. A request is the URL with its query
  parameters; the reply of the service to \<open>session.get\<close> is either an exception (with the
  text of \<open>str(e)\<close>) or a response with its status code. For a response with status 200 the
  body is decoded and seven fields are read from it: the reply carries either these seven
  values or the text of the exception that decoding or reading a field raised. The values
  themselves are JSON values, kept abstract as \<open>'v\<close>.
\<close>

record 'v city_weather =
  city :: 'v
  country :: 'v
  temperature :: 'v
  feels_like :: 'v
  humidity :: 'v
  description :: 'v
  wind_speed :: 'v

type_synonym request = "string \<times> (string \<times> string) list"

datatype 'v reply = Raises string | Status nat "string + 'v city_weather"

text \<open>
  The two shapes of the returned dictionary: the one of the early return with the key
  \<open>error\<close>, and the report. The clock is outside the model: \<open>elapsed\<close> is the rounded
  difference of the two readings.
\<close>

record 'v weather_error =
  error_message :: string
  error_cities_data :: "'v city_weather list"
  error_execution_time :: real

record 'v weather_report =
  cities_data :: "'v city_weather list"
  successful_requests :: nat
  failed_requests :: "string list"
  total_cities_attempted :: nat
  execution_time :: real

datatype 'v weather_result = NoApiKey "'v weather_error" | Report "'v weather_report"

definition cities :: "string list" where
  "cities =
     [''London,UK'', ''New York,US'', ''Tokyo,JP'', ''Paris,FR'', ''Sydney,AU'',
      ''Mumbai,IN'', ''S'' @ [CHR 0xC3, CHR 0xA3] @ ''o Paulo,BR'',
      ''Cairo,EG'', ''Moscow,RU'', ''Cape Town,ZA'', ''Toronto,CA'', ''Berlin,DE'',
      ''Bangkok,TH'', ''Mexico City,MX'', ''Buenos Aires,AR'']"

definition base_url :: string where
  "base_url = ''http://api.openweathermap.org/data/2.5/weather''"

text \<open>
  One iteration of \<open>for city in cities\<close>: the lists \<open>cities_data\<close> and \<open>failed_cities\<close> as they
  grow, and the requests sent so far.
\<close>

record 'v progress =
  collected :: "'v city_weather list"
  failed_cities :: "string list"
  requested :: "request list"

definition visit :: "string \<Rightarrow> (request \<Rightarrow> 'v reply) \<Rightarrow> string \<Rightarrow> 'v progress \<Rightarrow> 'v progress" where
  "visit api_key session c p =
     (let req = (base_url, [(''q'', c), (''appid'', api_key), (''units'', ''metric'')]);
          p' = p\<lparr>requested := requested p @ [req]\<rparr>
      in case session req of
           Raises msg \<Rightarrow>
             p'\<lparr>failed_cities := failed_cities p @ [c @ '' (Error: '' @ msg @ '')'']\<rparr>
         | Status code body \<Rightarrow>
             if code = 200
             then (case body of
                     Inl msg \<Rightarrow>
                       p'\<lparr>failed_cities := failed_cities p @ [c @ '' (Error: '' @ msg @ '')'']\<rparr>
                   | Inr w \<Rightarrow> p'\<lparr>collected := collected p @ [w]\<rparr>)
             else p'\<lparr>failed_cities :=
                        failed_cities p @ [c @ '' (HTTP '' @ str_nat code @ '')'']\<rparr>)"

text \<open>
  \<open>environ\<close> is the process environment read by \<open>os.getenv\<close>; \<open>if not api_key\<close> holds for
  an unset variable and for an empty one. The result is paired with the requests sent.
\<close>

definition fetch_weather_for_cities ::
  "(string \<rightharpoonup> string) \<Rightarrow> (request \<Rightarrow> 'v reply) \<Rightarrow> real \<Rightarrow> 'v weather_result \<times> request list" where
  "fetch_weather_for_cities environ session elapsed =
     (case environ ''OPENWEATHER_API_KEY'' of
        None \<Rightarrow>
          (NoApiKey \<lparr>error_message =
                       ''OpenWeatherMap API key not found. Set OPENWEATHER_API_KEY environment variable.'',
                     error_cities_data = [], error_execution_time = 0\<rparr>, [])
      | Some api_key \<Rightarrow>
          if api_key = []
          then (NoApiKey \<lparr>error_message =
                       ''OpenWeatherMap API key not found. Set OPENWEATHER_API_KEY environment variable.'',
                     error_cities_data = [], error_execution_time = 0\<rparr>, [])
          else (let p = fold (visit api_key session) cities
                          \<lparr>collected = [], failed_cities = [], requested = []\<rparr>
                in (Report \<lparr>cities_data = collected p,
                            successful_requests = length (collected p),
                            failed_requests = failed_cities p,
                            total_cities_attempted = length cities,
                            execution_time = elapsed\<rparr>, requested p)))"

text \<open>The wrapper runs the coroutine to completion and returns its value.\<close>

definition fetch_weather_for_cities_sync ::
  "(string \<rightharpoonup> string) \<Rightarrow> (request \<Rightarrow> 'v reply) \<Rightarrow> real \<Rightarrow> 'v weather_result \<times> request list" where
  "fetch_weather_for_cities_sync environ session elapsed =
     fetch_weather_for_cities environ session elapsed"

section \<open>Job queue: store, queue, dispatcher and executor\<close>

text \<open>
  The source delegates the job record, the queue and the worker loop to the Redis Queue
  library: \<open>main.py\<close> calls \<open>queue.enqueue\<close> and \<open>Job.fetch\<close>, \<open>worker.py\<close> calls
  \<open>Worker.work\<close>. The spec describes that part as Store, Queue, Dispatcher and Executor
  (sections 3 and 4); those components are modelled from the spec, and the endpoints of
  \<open>main.py\<close> from the source.
\<close>

subsection \<open>Job records\<close>

text \<open>
  The states of a job. The source tells them apart through \<open>is_queued\<close>, \<open>is_started\<close>,
  \<open>is_finished\<close> and \<open>is_failed\<close> (the spec's queued, running, succeeded and failed). A job
  object of the library can also be in none of these (waiting for a dependency or for a
  point in time, stopped, cancelled): the source's final \<open>else\<close> branch covers those.
\<close>

datatype job_state = Queued | Started | Finished | Failed | Deferred | Scheduled | Stopped | Canceled

datatype error_kind = UnknownFunction | ExecutionError

text \<open>
  Modelled from the spec: the Job entity of section 3, without its timestamps, which no
  operation of the source reads. \<open>function_ref\<close> names the registered work, \<open>arguments\<close>
  are fixed at creation (the endpoints of the source pass integers), \<open>job_result\<close> is
  the value returned by the function (\<open>job.result\<close> in the source) and \<open>job_error\<close> the
  structured description, kind and message, of a failure.
\<close>

record 'r job =
  job_id :: string
  function_ref :: string
  arguments :: "int list"
  state :: job_state
  job_result :: "'r option"
  job_error :: "(error_kind \<times> string) option"

definition is_finished :: "'r job \<Rightarrow> bool" where
  "is_finished j \<longleftrightarrow> state j = Finished"

definition is_failed :: "'r job \<Rightarrow> bool" where
  "is_failed j \<longleftrightarrow> state j = Failed"

definition is_started :: "'r job \<Rightarrow> bool" where
  "is_started j \<longleftrightarrow> state j = Started"

definition is_queued :: "'r job \<Rightarrow> bool" where
  "is_queued j \<longleftrightarrow> state j = Queued"

fun kind_name :: "error_kind \<Rightarrow> string" where
  "kind_name UnknownFunction = ''UnknownFunction''"
| "kind_name ExecutionError = ''ExecutionError''"

text \<open>
  Modelled from the spec: the source reads the stored failure as text through the
  attribute \<open>exc_info\<close>, absent while the job has not failed; the text is the kind
  followed by the underlying message.
\<close>

definition exc_info :: "'r job \<Rightarrow> string option" where
  "exc_info j =
     (case job_error j of None \<Rightarrow> None | Some (k, m) \<Rightarrow> Some (kind_name k @ '': '' @ m))"

subsection \<open>Store and queue\<close>

text \<open>
  Modelled from the spec: the Store is a keyed collection of job records, the Queue an
  ordered channel of job ids (sections 4.1 and 4.2), both kept by one backend.
\<close>

record 'r redis =
  jobs :: "string \<rightharpoonup> 'r job"
  pending :: "string list"

definition empty_redis :: "'r redis" where
  "empty_redis = \<lparr>jobs = Map.empty, pending = []\<rparr>"

text \<open>
  Exceptions of the backend, with the text that \<open>str(e)\<close> gives. An operation whose
  \<open>fault\<close> argument is \<open>Some msg\<close> finds the backend unreachable and raises before any
  read or write (the spec's \<open>StoreUnavailable\<close>).
\<close>

datatype exn = NoSuchJobError string | ConnectionError string

fun exn_str :: "exn \<Rightarrow> string" where
  "exn_str (NoSuchJobError msg) = msg"
| "exn_str (ConnectionError msg) = msg"

text \<open>
  Modelled from the spec: \<open>Store.get\<close>, which the source calls as \<open>Job.fetch\<close>. It returns
  the current record or fails for an id without a record; the source recognises that
  failure by the words \<open>No such job\<close> in its message. A read leaves the backend as it is.
\<close>

definition Job_fetch :: "string option \<Rightarrow> string \<Rightarrow> 'r redis \<Rightarrow> (exn + 'r job) \<times> 'r redis" where
  "Job_fetch fault task_id r =
     (case fault of
        Some msg \<Rightarrow> (Inl (ConnectionError msg), r)
      | None \<Rightarrow>
          (case jobs r task_id of
             None \<Rightarrow> (Inl (NoSuchJobError (''No such job: '' @ task_id)), r)
           | Some j \<Rightarrow> (Inr j, r)))"

text \<open>
  Modelled from the spec: \<open>Store.create\<close> persists a record in state queued under a new
  id. The id comes from the environment's generator (\<open>new_id\<close>); that it is unused is an
  assumption on the generator, stated where a property needs it.
\<close>

definition Store_create ::
  "string option \<Rightarrow> string \<Rightarrow> string \<Rightarrow> int list \<Rightarrow> 'r redis \<Rightarrow> (exn + 'r job) \<times> 'r redis" where
  "Store_create fault new_id f a r =
     (case fault of
        Some msg \<Rightarrow> (Inl (ConnectionError msg), r)
      | None \<Rightarrow>
          (let j = \<lparr>job_id = new_id, function_ref = f, arguments = a, state = Queued,
                    job_result = None, job_error = None\<rparr>
           in (Inr j, r\<lparr>jobs := (jobs r)(new_id \<mapsto> j)\<rparr>)))"

text \<open>Modelled from the spec: \<open>Queue.push\<close> appends a reference.\<close>

definition Queue_push :: "string option \<Rightarrow> string \<Rightarrow> 'r redis \<Rightarrow> (exn + unit) \<times> 'r redis" where
  "Queue_push fault task_id r =
     (case fault of
        Some msg \<Rightarrow> (Inl (ConnectionError msg), r)
      | None \<Rightarrow> (Inr (), r\<lparr>pending := pending r @ [task_id]\<rparr>))"

text \<open>
  Modelled from the spec: the Dispatcher's \<open>submit\<close> (section 4.4), which the source calls
  as \<open>queue.enqueue\<close>: \<open>Store.create\<close>, then \<open>Queue.push\<close>, returning the job. When the push
  fails after the record was created, the record stays behind in state queued.
\<close>

definition enqueue ::
  "string option \<Rightarrow> string option \<Rightarrow> string \<Rightarrow> string \<Rightarrow> int list \<Rightarrow> 'r redis
     \<Rightarrow> (exn + 'r job) \<times> 'r redis" where
  "enqueue create_fault push_fault new_id f a r =
     (case Store_create create_fault new_id f a r of
        (Inl e, r1) \<Rightarrow> (Inl e, r1)
      | (Inr j, r1) \<Rightarrow>
          (case Queue_push push_fault (job_id j) r1 of
             (Inl e, r2) \<Rightarrow> (Inl e, r2)
           | (Inr u, r2) \<Rightarrow> (Inr j, r2)))"

subsection \<open>Executor\<close>

text \<open>
  Modelled from the spec: the job function registry (section 6), a mapping from
  \<open>function_ref\<close> to an invocable that takes the arguments and either returns a result
  (\<open>Inr\<close>) or raises a failure with a message (\<open>Inl\<close>).
\<close>

type_synonym 'r registry = "string \<rightharpoonup> (int list \<Rightarrow> string + 'r)"

text \<open>Modelled from the spec: \<open>Queue.pop\<close> removes and returns the oldest reference.\<close>

definition Queue_pop :: "'r redis \<Rightarrow> string option \<times> 'r redis" where
  "Queue_pop r =
     (case pending r of
        [] \<Rightarrow> (None, r)
      | x # xs \<Rightarrow> (Some x, r\<lparr>pending := xs\<rparr>))"

text \<open>
  Modelled from the spec: steps 1 and 2 of the executor (section 4.3). The popped
  reference is dropped when it has no record or when the record is not in state queued
  (terminal, or already taken by another consumer); otherwise the record moves to
  running and the executor holds the job. The result names the job now held, if any.
\<close>

definition worker_begin :: "'r redis \<Rightarrow> string option \<times> 'r redis" where
  "worker_begin r =
     (case Queue_pop r of
        (None, r1) \<Rightarrow> (None, r1)
      | (Some task_id, r1) \<Rightarrow>
          (case jobs r1 task_id of
             None \<Rightarrow> (None, r1)
           | Some j \<Rightarrow>
               if state j = Queued
               then (Some task_id, r1\<lparr>jobs := (jobs r1)(task_id \<mapsto> j\<lparr>state := Started\<rparr>)\<rparr>)
               else (None, r1)))"

text \<open>
  Modelled from the spec: steps 3 to 5. The function is resolved in the registry and
  invoked; a raised failure is caught and stored. The terminal transition is taken only
  from state running, so a second attempt on the same job changes nothing.
\<close>

definition outcome :: "'r registry \<Rightarrow> 'r job \<Rightarrow> 'r job" where
  "outcome reg j =
     (case reg (function_ref j) of
        None \<Rightarrow> j\<lparr>state := Failed, job_error := Some (UnknownFunction, function_ref j)\<rparr>
      | Some f \<Rightarrow>
          (case f (arguments j) of
             Inl m \<Rightarrow> j\<lparr>state := Failed, job_error := Some (ExecutionError, m)\<rparr>
           | Inr v \<Rightarrow> j\<lparr>state := Finished, job_result := Some v\<rparr>))"

definition worker_finish :: "'r registry \<Rightarrow> string \<Rightarrow> 'r redis \<Rightarrow> 'r redis" where
  "worker_finish reg task_id r =
     (case jobs r task_id of
        None \<Rightarrow> r
      | Some j \<Rightarrow>
          if state j = Started then r\<lparr>jobs := (jobs r)(task_id \<mapsto> outcome reg j)\<rparr> else r)"



subsection \<open>Endpoints of main.py\<close>

datatype http_exception = HTTPException nat string

text \<open>
  The response models. \<open>TaskResponse\<close> and \<open>TaskStatusResponse\<close> both start with the fields
  \<open>task_id\<close> and \<open>status\<close>, declared once here.
\<close>

record response_head =
  task_id :: string
  status :: string

record TaskResponse = response_head +
  message :: string

record 'r TaskStatusResponse = response_head +
  result :: "'r option"
  error :: "string option"

record PrimeRequest =
  request_start :: int
  request_end :: int

record FibonacciRequest =
  request_n :: int

text \<open>Python's \<open>needle in text\<close> on strings.\<close>

fun contains :: "string \<Rightarrow> string \<Rightarrow> bool" where
  "contains needle [] \<longleftrightarrow> needle = []"
| "contains needle (c # cs) \<longleftrightarrow> take (length needle) (c # cs) = needle \<or> contains needle cs"

definition enqueue_response ::
  "string \<Rightarrow> (exn + 'r job) \<times> 'r redis \<Rightarrow> (http_exception + TaskResponse) \<times> 'r redis" where
  "enqueue_response msg res =
     (case res of
        (Inl e, r) \<Rightarrow> (Inl (HTTPException 500 (''Failed to enqueue task: '' @ exn_str e)), r)
      | (Inr j, r) \<Rightarrow> (Inr \<lparr>task_id = job_id j, status = ''enqueued'', message = msg\<rparr>, r))"

definition enqueue_prime_task ::
  "string option \<Rightarrow> string option \<Rightarrow> string \<Rightarrow> PrimeRequest \<Rightarrow> 'r redis
     \<Rightarrow> (http_exception + TaskResponse) \<times> 'r redis" where
  "enqueue_prime_task create_fault push_fault new_id request r =
     enqueue_response
       (''Prime generation task enqueued for range '' @ str_int (request_start request)
          @ ''-'' @ str_int (request_end request))
       (enqueue create_fault push_fault new_id ''find_primes_in_range''
          [request_start request, request_end request] r)"

definition enqueue_fibonacci_task ::
  "string option \<Rightarrow> string option \<Rightarrow> string \<Rightarrow> FibonacciRequest \<Rightarrow> 'r redis
     \<Rightarrow> (http_exception + TaskResponse) \<times> 'r redis" where
  "enqueue_fibonacci_task create_fault push_fault new_id request r =
     enqueue_response
       (''Fibonacci calculation task enqueued for n='' @ str_int (request_n request))
       (enqueue create_fault push_fault new_id ''calculate_fibonacci'' [request_n request] r)"

definition enqueue_weather_task ::
  "string option \<Rightarrow> string option \<Rightarrow> string \<Rightarrow> 'r redis
     \<Rightarrow> (http_exception + TaskResponse) \<times> 'r redis" where
  "enqueue_weather_task create_fault push_fault new_id r =
     enqueue_response ''Weather data fetching task enqueued''
       (enqueue create_fault push_fault new_id ''fetch_weather_for_cities_sync'' [] r)"

definition get_task_status ::
  "string option \<Rightarrow> string \<Rightarrow> 'r redis \<Rightarrow> (http_exception + 'r TaskStatusResponse) \<times> 'r redis" where
  "get_task_status fault tid r =
     (case Job_fetch fault tid r of
        (Inr j, r1) \<Rightarrow>
          (if is_finished j
           then Inr \<lparr>task_id = tid, status = ''completed'', result = job_result j, error = None\<rparr>
           else if is_failed j
           then Inr \<lparr>task_id = tid, status = ''failed'', result = None,
                     error = Some (case exc_info j of
                                     None \<Rightarrow> ''Unknown error''
                                   | Some text \<Rightarrow> if text = [] then ''Unknown error'' else text)\<rparr>
           else if is_started j
           then Inr \<lparr>task_id = tid, status = ''in_progress'', result = None, error = None\<rparr>
           else if is_queued j
           then Inr \<lparr>task_id = tid, status = ''pending'', result = None, error = None\<rparr>
           else Inr \<lparr>task_id = tid, status = ''unknown'', result = None, error = None\<rparr>,
           r1)
      | (Inl e, r1) \<Rightarrow>
          (if contains ''No such job'' (exn_str e)
           then Inl (HTTPException 404 ''Task not found'')
           else Inl (HTTPException 500 (''Failed to get task status: '' @ exn_str e)),
           r1))"

subsection \<open>Runs of the system\<close>

text \<open>
  The system evolves by events: a request to one of the three enqueue endpoints (with
  the faults of its two backend operations and the id the generator produces), an
  executor taking the oldest pending reference, and an executor completing the job it
  holds. Executors interleave in any order.
\<close>

datatype event =
    SubmitPrimes "string option" "string option" string PrimeRequest
  | SubmitFibonacci "string option" "string option" string FibonacciRequest
  | SubmitWeather "string option" "string option" string
  | Begin
  | Complete string

fun step :: "'r registry \<Rightarrow> event \<Rightarrow> 'r redis \<Rightarrow> 'r redis" where
  "step reg (SubmitPrimes cf pf new_id request) r = snd (enqueue_prime_task cf pf new_id request r)"
| "step reg (SubmitFibonacci cf pf new_id request) r =
     snd (enqueue_fibonacci_task cf pf new_id request r)"
| "step reg (SubmitWeather cf pf new_id) r = snd (enqueue_weather_task cf pf new_id r)"
| "step reg Begin r = snd (worker_begin r)"
| "step reg (Complete tid) r = worker_finish reg tid r"

fun run :: "'r registry \<Rightarrow> event list \<Rightarrow> 'r redis \<Rightarrow> 'r redis" where
  "run reg [] r = r"
| "run reg (e # es) r = run reg es (step reg e r)"

text \<open>The ids handed out by the generator in a run.\<close>

fun submitted :: "event \<Rightarrow> string set" where
  "submitted (SubmitPrimes cf pf new_id request) = {new_id}"
| "submitted (SubmitFibonacci cf pf new_id request) = {new_id}"
| "submitted (SubmitWeather cf pf new_id) = {new_id}"
| "submitted Begin = {}"
| "submitted (Complete tid) = {}"

text \<open>
  The state of a job as a poll of the status endpoint reports it, and the states a
  poller sees when it polls after every event of a run.
\<close>

definition observe :: "string \<Rightarrow> 'r redis \<Rightarrow> string option" where
  "observe tid r =
     (case fst (get_task_status None tid r) of
        Inl e \<Rightarrow> None
      | Inr resp \<Rightarrow> Some (status resp))"

fun observations :: "'r registry \<Rightarrow> string \<Rightarrow> event list \<Rightarrow> 'r redis \<Rightarrow> string option list" where
  "observations reg tid [] r = [observe tid r]"
| "observations reg tid (e # es) r = observe tid r # observations reg tid es (step reg e r)"

text \<open>
  The lifecycle on reported states: no record yet (the poll answers 404), then pending,
  in_progress, and completed or failed. \<open>advance\<close> is one transition or none, \<open>reaches\<close>
  any number of them.
\<close>

definition phase :: "string option \<Rightarrow> nat" where
  "phase a =
     (case a of
        None \<Rightarrow> 0
      | Some s \<Rightarrow>
          if s = ''pending'' then 1
          else if s = ''in_progress'' then 2
          else if s = ''completed'' \<or> s = ''failed'' then 3
          else 4)"

definition advance :: "string option \<Rightarrow> string option \<Rightarrow> bool" where
  "advance a b \<longleftrightarrow> a = b \<or> (phase b = Suc (phase a) \<and> phase b \<le> 3)"

definition reaches :: "string option \<Rightarrow> string option \<Rightarrow> bool" where
  "reaches a b \<longleftrightarrow> a = b \<or> (phase a < phase b \<and> phase b \<le> 3)"

text \<open>
  The generator hands out unused ids: no event of the run submits an id that is in
  \<open>used\<close> or that an earlier event of the run submitted.
\<close>

fun fresh_ids :: "string set \<Rightarrow> event list \<Rightarrow> bool" where
  "fresh_ids used [] \<longleftrightarrow> True"
| "fresh_ids used (e # es) \<longleftrightarrow> submitted e \<inter> used = {} \<and> fresh_ids (used \<union> submitted e) es"

text \<open>
  The invariant of the records that the dispatcher and the executor write: one of the
  four lifecycle states, a result exactly in state succeeded, an error exactly in state
  failed.
\<close>

definition job_ok :: "'r job \<Rightarrow> bool" where
  "job_ok j \<longleftrightarrow>
     (state j = Queued \<or> state j = Started \<or> state j = Finished \<or> state j = Failed)
     \<and> (job_result j \<noteq> None) = (state j = Finished)
     \<and> (job_error j \<noteq> None) = (state j = Failed)"

definition store_ok :: "'r redis \<Rightarrow> bool" where
  "store_ok r \<longleftrightarrow> (\<forall>tid j. jobs r tid = Some j \<longrightarrow> job_ok j)"

subsection \<open>The scenarios of section 8 of the spec\<close>

text \<open>
  A registry for the end-to-end scenarios: the work behind the prime endpoint returns 42,
  the work behind the Fibonacci endpoint raises an error with message \<open>boom\<close>, and nothing
  is registered for the weather endpoint.
\<close>

definition scenario_registry :: "int registry" where
  "scenario_registry =
     [''find_primes_in_range'' \<mapsto> (\<lambda>a. Inr 42), ''calculate_fibonacci'' \<mapsto> (\<lambda>a. Inl ''boom'')]"

definition scenario_events :: "event list" where
  "scenario_events =
     [SubmitPrimes None None ''job-1'' \<lparr>request_start = 1, request_end = 1000\<rparr>,
      SubmitFibonacci None None ''job-2'' \<lparr>request_n = 30\<rparr>,
      Begin, Complete ''job-1'', Begin]"

section \<open>Properties of calculate_fibonacci\<close>

lemma fib_recursive_value:
  "0 \<le> num \<Longrightarrow> nat num \<le> depth \<Longrightarrow> 0 < depth \<Longrightarrow>
     fib_recursive depth num = Inr (int (fibonacci (nat num)))"
proof (induction depth num rule: fib_recursive.induct)
  case (1 num)
  then show ?case by simp
next
  case (2 depth num)
  show ?case
  proof (cases "num \<le> 1")
    case True
    with 2(3) have "num = 0 \<or> num = 1" by auto
    then show ?thesis by auto
  next
    case False
    then have d: "0 < depth" using 2(4) by auto
    have a: "fib_recursive depth (num - 1) = Inr (int (fibonacci (nat (num - 1))))"
      using 2(1)[OF False] False 2(4) d by auto
    have b: "fib_recursive depth (num - 2) = Inr (int (fibonacci (nat (num - 2))))"
      using 2(2)[OF False a] False 2(4) d by auto
    define k where "k = nat num - 2"
    have k: "nat num = Suc (Suc k)"
      using False by (simp add: k_def)
    have k1: "nat (num - 1) = Suc k" and k2: "nat (num - 2) = k"
      using k by auto
    show ?thesis using False a b k k1 k2 by simp
  qed
qed

lemma fold_fib_step:
  "fold fib_step [int (Suc (Suc 0))..int (Suc k)] (int (fibonacci j), int (fibonacci (Suc j)))
     = (int (fibonacci (j + k)), int (fibonacci (Suc (j + k))))"
proof (induction k arbitrary: j)
  case 0
  then show ?case by simp
next
  case (Suc k)
  have "[int (Suc (Suc 0))..int (Suc (Suc k))] = [int (Suc (Suc 0))..int (Suc k)] @ [int (Suc (Suc k))]"
    using upto_rec2 [of "int (Suc (Suc 0))" "int (Suc (Suc k))"] by simp
  then show ?case using Suc [of j] by (simp add: fib_step_def)
qed

lemma fib_iterative_value:
  assumes "0 \<le> num" "2 \<le> depth"
  shows "fib_iterative depth num = Inr (int (fibonacci (nat num)))"
proof (cases "num \<le> 1")
  case True
  with assms have "num = 0 \<or> num = 1" by auto
  then show ?thesis using assms by (auto simp: fib_iterative_def)
next
  case False
  define k where "k = nat num - 1"
  have k: "num = int (Suc k)" "0 < k"
    using False by (simp_all add: k_def)
  have "fold fib_step [2..num] (0, 1) = (int (fibonacci k), int (fibonacci (Suc k)))"
    using fold_fib_step [of k 0] k by simp
  moreover have "nat num = Suc k" using k by simp
  ultimately show ?thesis using False assms by (simp add: fib_iterative_def)
qed

lemma fib_recursive_too_deep:
  "2 \<le> num \<Longrightarrow> int depth < num \<Longrightarrow> fib_recursive depth num = Inl RecursionError"
proof (induction depth arbitrary: num)
  case 0
  then show ?case by simp
next
  case (Suc depth)
  show ?case
  proof (cases depth)
    case 0
    then show ?thesis using Suc.prems by simp
  next
    case (Suc d)
    then have "fib_recursive depth (num - 1) = Inl RecursionError"
      using Suc.IH [of "num - 1"] Suc.prems by simp
    then show ?thesis using Suc.prems by simp
  qed
qed

lemma fib_iterative_too_deep:
  "depth < 2 \<Longrightarrow> fib_iterative depth num = Inl RecursionError"
  by (simp add: fib_iterative_def)

text \<open>
  Claim C9, as the code has it. For every \<open>n \<ge> 0\<close>, \<open>calculate_fibonacci(n)\<close> returns a record
  exactly when the interpreter's recursion limit lets the chosen branch finish: at least two
  nested levels for \<open>n \<le> 30\<close> (the frame of \<open>fib_iterative\<close> and its comparison), at least
  \<open>n\<close> nested levels for \<open>n > 30\<close> (the frames of \<open>fib_recursive\<close>). In that case the record
  holds the mathematical \<open>n\<close>-th Fibonacci number in \<open>fibonacci_number\<close>; in every other case
  the call raises \<open>RecursionError\<close> and returns no record. The iterative and the recursive
  helper compute the same value, the \<open>n\<close>-th Fibonacci number, whenever the first is given two
  levels and the second \<open>n + 2\<close>.
\<close>

theorem calculate_fibonacci_correct:
  assumes "0 \<le> n"
  shows "calculate_fibonacci depth elapsed n =
           (if (if n \<le> 30 then 2 \<le> depth else nat n \<le> depth)
            then Inr \<lparr>fibonacci_number = int (fibonacci (nat n)), position = n,
                      fib_execution_time = elapsed\<rparr>
            else Inl RecursionError)
         \<and> (\<forall>d1 d2. 2 \<le> d1 \<and> nat n + 2 \<le> d2 \<longrightarrow>
                fib_iterative d1 n = fib_recursive d2 n
                \<and> fib_iterative d1 n = Inr (int (fibonacci (nat n))))"
proof -
  have "calculate_fibonacci depth elapsed n =
           (if (if n \<le> 30 then 2 \<le> depth else nat n \<le> depth)
            then Inr \<lparr>fibonacci_number = int (fibonacci (nat n)), position = n,
                      fib_execution_time = elapsed\<rparr>
            else Inl RecursionError)"
  proof (cases "n \<le> 30")
    case True
    show ?thesis
    proof (cases "2 \<le> depth")
      case True
      then show ?thesis
        using \<open>n \<le> 30\<close> assms by (simp add: calculate_fibonacci_def fib_iterative_value)
    next
      case False
      then have "fib_iterative depth n = Inl RecursionError"
        by (simp add: fib_iterative_too_deep)
      then show ?thesis
        using \<open>n \<le> 30\<close> False by (simp add: calculate_fibonacci_def)
    qed
  next
    case False
    show ?thesis
    proof (cases "nat n \<le> depth")
      case True
      then have "0 < depth" using False by auto
      then show ?thesis
        using False True assms by (simp add: calculate_fibonacci_def fib_recursive_value)
    next
      case deep: False
      have "fib_recursive depth n = Inl RecursionError"
        using False deep by (intro fib_recursive_too_deep) auto
      then show ?thesis
        using False deep by (simp add: calculate_fibonacci_def)
    qed
  qed
  moreover have "\<forall>d1 d2. 2 \<le> d1 \<and> nat n + 2 \<le> d2 \<longrightarrow>
                fib_iterative d1 n = fib_recursive d2 n
                \<and> fib_iterative d1 n = Inr (int (fibonacci (nat n)))"
    using assms by (simp add: fib_iterative_value fib_recursive_value)
  ultimately show ?thesis by (rule conjI)
qed

lemma fib_iterative_31: "fib_iterative 2 31 = Inr 1346269"
  by code_simp

theorem calculate_fibonacci_correct_witness:
  "(0::int) \<le> 31
   \<and> calculate_fibonacci 31 0 31 =
         Inr \<lparr>fibonacci_number = 1346269, position = 31, fib_execution_time = 0\<rparr>
   \<and> calculate_fibonacci 30 0 31 = Inl RecursionError
   \<and> (2::nat) \<le> 2 \<and> nat 31 + 2 \<le> (33::nat)
   \<and> fib_iterative 2 31 = fib_recursive 33 31"
proof -
  have h: "(0::int) \<le> 31" by simp
  note t = calculate_fibonacci_correct [OF h]
  have p: "(2::nat) \<le> 2 \<and> nat 31 + 2 \<le> (33::nat)" by simp
  have eq: "fib_iterative 2 31 = fib_recursive 33 31
            \<and> fib_iterative 2 31 = Inr (int (fibonacci (nat 31)))"
    by (rule t [of 31 0, THEN conjunct2, THEN spec, of 2, THEN spec, of 33, THEN mp, OF p])
  have v: "int (fibonacci (nat 31)) = 1346269"
    using eq [THEN conjunct2] by (simp only: fib_iterative_31 sum.inject)
  have c: "calculate_fibonacci 31 0 31 =
         Inr \<lparr>fibonacci_number = 1346269, position = 31, fib_execution_time = 0\<rparr>"
    using t [of 31 0, THEN conjunct1] v by simp
  have e: "calculate_fibonacci 30 0 31 = Inl RecursionError"
    using t [of 30 0, THEN conjunct1] by simp
  show ?thesis using eq [THEN conjunct1] c e by simp
qed

text \<open>
  Claim C9 as stated ("for every \<open>n \<ge> 0\<close> ... always returns") fails: with 1000 nested levels
  left, \<open>calculate_fibonacci(1001)\<close> takes the recursive branch, whose first chain of calls
  \<open>fib_recursive(1001), fib_recursive(1000), ...\<close> exceeds the limit, and raises
  \<open>RecursionError\<close> instead of returning a record.
\<close>

theorem calculate_fibonacci_recursion_limit:
  "calculate_fibonacci 1000 0 1001 = Inl RecursionError"
proof -
  have "fib_recursive 1000 1001 = Inl RecursionError"
    by (rule fib_recursive_too_deep) simp_all
  then show ?thesis by (simp add: calculate_fibonacci_def)
qed

section \<open>Properties of find_primes_in_range\<close>





















section \<open>Properties of fetch_weather_for_cities\<close>

lemma requested_visit:
  "length (requested (visit k s c p)) = Suc (length (requested p))"
  by (simp add: visit_def Let_def split: reply.splits sum.splits)

lemma requested_fold_visit:
  "length (requested (fold (visit k s) cs p)) = length cs + length (requested p)"
  by (induction cs arbitrary: p) (simp_all add: requested_visit)

lemma length_cities: "length cities = 15"
  by (simp add: cities_def)

lemma fetch_weather_requests_all_cities:
  "environ ''OPENWEATHER_API_KEY'' = Some k \<Longrightarrow> k \<noteq> [] \<Longrightarrow>
     length (snd (fetch_weather_for_cities environ session elapsed)) = 15"
  by (simp add: fetch_weather_for_cities_def Let_def requested_fold_visit length_cities)

text \<open>
  Claim C10. When \<open>OPENWEATHER_API_KEY\<close> is unset, \<open>fetch_weather_for_cities\<close> and its
  synchronous wrapper return the record with the error message, an empty \<open>cities_data\<close>
  list and \<open>execution_time\<close> 0, and no HTTP request is made (the list of requests sent
  is empty).
\<close>

theorem fetch_weather_without_api_key:
  assumes "environ ''OPENWEATHER_API_KEY'' = None"
  shows "fetch_weather_for_cities environ session elapsed =
           (NoApiKey \<lparr>error_message =
              ''OpenWeatherMap API key not found. Set OPENWEATHER_API_KEY environment variable.'',
              error_cities_data = [], error_execution_time = 0\<rparr>, [])
         \<and> fetch_weather_for_cities_sync environ session elapsed =
           (NoApiKey \<lparr>error_message =
              ''OpenWeatherMap API key not found. Set OPENWEATHER_API_KEY environment variable.'',
              error_cities_data = [], error_execution_time = 0\<rparr>, [])"
  using assms by (simp add: fetch_weather_for_cities_def fetch_weather_for_cities_sync_def)

theorem fetch_weather_without_api_key_witness:
  "Map.empty ''OPENWEATHER_API_KEY'' = (None :: string option)
   \<and> snd (fetch_weather_for_cities_sync Map.empty (\<lambda>r. Raises ''unreachable'' :: unit reply) 0) = []
   \<and> (\<exists>e. fst (fetch_weather_for_cities_sync Map.empty (\<lambda>r. Raises ''unreachable'' :: unit reply) 0)
          = NoApiKey e \<and> error_cities_data e = [] \<and> error_execution_time e = 0)"
  using fetch_weather_without_api_key [of Map.empty "\<lambda>r. Raises ''unreachable'' :: unit reply" 0]
  by simp

section \<open>Properties of the job queue\<close>

subsection \<open>The status endpoint on one record\<close>

lemma get_task_status_read_only: "snd (get_task_status fault tid r) = r"
  by (simp add: get_task_status_def Job_fetch_def split: option.splits)

lemma contains_prefix: "contains needle (needle @ rest)"
proof (cases "needle @ rest")
  case Nil
  then show ?thesis by simp
next
  case (Cons c cs)
  have "take (length needle) (needle @ rest) = needle" by simp
  then have "take (length needle) (c # cs) = needle" by (simp only: Cons)
  then show ?thesis by (simp only: Cons contains.simps) simp
qed

lemma get_task_status_missing:
  "jobs r tid = None \<Longrightarrow>
     fst (get_task_status None tid r) = Inl (HTTPException 404 ''Task not found'')"
proof -
  assume "jobs r tid = None"
  moreover have "contains ''No such job'' (''No such job'' @ '': '' @ tid)"
    by (rule contains_prefix)
  ultimately show ?thesis
    by (simp add: get_task_status_def Job_fetch_def)
qed

lemma get_task_status_finished:
  "jobs r tid = Some j \<Longrightarrow> state j = Finished \<Longrightarrow>
     fst (get_task_status None tid r) =
       Inr \<lparr>task_id = tid, status = ''completed'', result = job_result j, error = None\<rparr>"
  by (simp add: get_task_status_def Job_fetch_def is_finished_def)

lemma get_task_status_failed:
  "jobs r tid = Some j \<Longrightarrow> state j = Failed \<Longrightarrow>
     fst (get_task_status None tid r) =
       Inr \<lparr>task_id = tid, status = ''failed'', result = None,
            error = Some (case exc_info j of
                            None \<Rightarrow> ''Unknown error''
                          | Some text \<Rightarrow> if text = [] then ''Unknown error'' else text)\<rparr>"
  by (simp add: get_task_status_def Job_fetch_def is_finished_def is_failed_def)

lemma get_task_status_started:
  "jobs r tid = Some j \<Longrightarrow> state j = Started \<Longrightarrow>
     fst (get_task_status None tid r) =
       Inr \<lparr>task_id = tid, status = ''in_progress'', result = None, error = None\<rparr>"
  by (simp add: get_task_status_def Job_fetch_def is_finished_def is_failed_def is_started_def)

lemma get_task_status_queued:
  "jobs r tid = Some j \<Longrightarrow> state j = Queued \<Longrightarrow>
     fst (get_task_status None tid r) =
       Inr \<lparr>task_id = tid, status = ''pending'', result = None, error = None\<rparr>"
  by (simp add: get_task_status_def Job_fetch_def is_finished_def is_failed_def is_started_def
      is_queued_def)


lemma enqueue_jobs:
  "jobs (snd (enqueue cf pf new_id f a r)) =
     (if cf = None
      then (jobs r)(new_id \<mapsto> \<lparr>job_id = new_id, function_ref = f, arguments = a, state = Queued,
                                job_result = None, job_error = None\<rparr>)
      else jobs r)"
  by (simp add: enqueue_def Store_create_def Queue_push_def Let_def split: option.splits)

lemma enqueue_response_snd: "snd (enqueue_response msg res) = snd res"
  by (simp add: enqueue_response_def split: prod.splits sum.splits)

lemma step_submit_jobs:
  "submitted e = {new_id} \<Longrightarrow>
     jobs (step reg e r) = jobs r \<or>
     (\<exists>f a. jobs (step reg e r) =
        (jobs r)(new_id \<mapsto> \<lparr>job_id = new_id, function_ref = f, arguments = a, state = Queued,
                                job_result = None, job_error = None\<rparr>))"
  by (cases e)
    (auto simp: enqueue_prime_task_def enqueue_fibonacci_task_def enqueue_weather_task_def
      enqueue_response_snd enqueue_jobs)

lemma worker_begin_jobs:
  "jobs (snd (worker_begin r)) = jobs r \<or>
   (\<exists>tid j. jobs r tid = Some j \<and> state j = Queued \<and>
      jobs (snd (worker_begin r)) = (jobs r)(tid \<mapsto> j\<lparr>state := Started\<rparr>))"
  by (auto simp: worker_begin_def Queue_pop_def split: list.splits option.splits)

lemma worker_finish_jobs:
  "jobs (worker_finish reg tid r) = jobs r \<or>
   (\<exists>j. jobs r tid = Some j \<and> state j = Started \<and>
      jobs (worker_finish reg tid r) = (jobs r)(tid \<mapsto> outcome reg j))"
  by (auto simp: worker_finish_def split: option.splits)

subsection \<open>Invariant of the store and the ids of a run\<close>

lemma job_ok_new:
  "job_ok \<lparr>job_id = new_id, function_ref = f, arguments = a, state = Queued,
           job_result = None, job_error = None\<rparr>"
  by (simp add: job_ok_def)

lemma job_ok_started: "job_ok j \<Longrightarrow> state j = Queued \<Longrightarrow> job_ok (j\<lparr>state := Started\<rparr>)"
  by (simp add: job_ok_def)

lemma job_ok_outcome: "job_ok j \<Longrightarrow> state j = Started \<Longrightarrow> job_ok (outcome reg j)"
  by (auto simp: job_ok_def outcome_def split: option.splits sum.splits)

lemma submitted_cases:
  "(\<exists>new_id. submitted e = {new_id}) \<or> e = Begin \<or> (\<exists>tid. e = Complete tid)"
  by (cases e) simp_all

lemma store_ok_update: "store_ok r \<Longrightarrow> jobs r' = (jobs r)(tid \<mapsto> j) \<Longrightarrow> job_ok j \<Longrightarrow> store_ok r'"
  by (simp add: store_ok_def)

lemma store_ok_same: "store_ok r \<Longrightarrow> jobs r' = jobs r \<Longrightarrow> store_ok r'"
  by (simp add: store_ok_def)

lemma store_ok_step:
  assumes "store_ok r"
  shows "store_ok (step reg e r)"
proof -
  consider new_id where "submitted e = {new_id}" | "e = Begin" | tid where "e = Complete tid"
    using submitted_cases [of e] by blast
  then show ?thesis
  proof cases
    case 1
    from step_submit_jobs [OF 1, of reg r] show ?thesis
      using assms by (auto intro: store_ok_same store_ok_update job_ok_new)
  next
    case 2
    from worker_begin_jobs [of r] show ?thesis
    proof
      assume "jobs (snd (worker_begin r)) = jobs r"
      then show ?thesis using assms 2 by (auto intro: store_ok_same)
    next
      assume "\<exists>tid j. jobs r tid = Some j \<and> state j = Queued \<and>
        jobs (snd (worker_begin r)) = (jobs r)(tid \<mapsto> j\<lparr>state := Started\<rparr>)"
      then obtain tid j where j: "jobs r tid = Some j" "state j = Queued"
        "jobs (snd (worker_begin r)) = (jobs r)(tid \<mapsto> j\<lparr>state := Started\<rparr>)" by blast
      have "job_ok j" using assms j(1) by (simp add: store_ok_def)
      then have "job_ok (j\<lparr>state := Started\<rparr>)" using j(2) by (rule job_ok_started)
      then show ?thesis using assms j(3) 2 by (auto intro: store_ok_update)
    qed
  next
    case 3
    from worker_finish_jobs [of reg tid r] show ?thesis
    proof
      assume "jobs (worker_finish reg tid r) = jobs r"
      then show ?thesis using assms 3 by (auto intro: store_ok_same)
    next
      assume "\<exists>j. jobs r tid = Some j \<and> state j = Started \<and>
        jobs (worker_finish reg tid r) = (jobs r)(tid \<mapsto> outcome reg j)"
      then obtain j where j: "jobs r tid = Some j" "state j = Started"
        "jobs (worker_finish reg tid r) = (jobs r)(tid \<mapsto> outcome reg j)" by blast
      have "job_ok j" using assms j(1) by (simp add: store_ok_def)
      then have "job_ok (outcome reg j)" using j(2) by (rule job_ok_outcome)
      then show ?thesis using assms j(3) 3 by (auto intro: store_ok_update)
    qed
  qed
qed

lemma store_ok_run: "store_ok r \<Longrightarrow> store_ok (run reg evs r)"
  by (induction evs arbitrary: r) (simp_all add: store_ok_step)

lemma store_ok_empty: "store_ok empty_redis"
  by (simp add: store_ok_def empty_redis_def)

lemma dom_step: "dom (jobs (step reg e r)) \<subseteq> dom (jobs r) \<union> submitted e"
proof -
  consider new_id where "submitted e = {new_id}" | "e = Begin" | tid where "e = Complete tid"
    using submitted_cases [of e] by blast
  then show ?thesis
  proof cases
    case 1
    from step_submit_jobs [OF 1, of reg r] show ?thesis using 1 by auto
  next
    case 2
    from worker_begin_jobs [of r] show ?thesis using 2 by (auto split: if_splits)
  next
    case 3
    from worker_finish_jobs [of reg tid r] show ?thesis using 3 by (auto split: if_splits)
  qed
qed

lemma dom_run: "dom (jobs (run reg evs r)) \<subseteq> dom (jobs r) \<union> (\<Union>e \<in> set evs. submitted e)"
proof (induction evs arbitrary: r)
  case Nil
  then show ?case by simp
next
  case (Cons e es)
  have "dom (jobs (run reg es (step reg e r))) \<subseteq>
          dom (jobs (step reg e r)) \<union> (\<Union>e \<in> set es. submitted e)"
    by (rule Cons.IH)
  then show ?case using dom_step [of reg e r] by auto
qed

lemma observe_store_ok:
  assumes "store_ok r"
  shows "observe tid r =
           (case jobs r tid of
              None \<Rightarrow> None
            | Some j \<Rightarrow>
                Some (if state j = Finished then ''completed''
                      else if state j = Failed then ''failed''
                      else if state j = Started then ''in_progress''
                      else ''pending''))"
proof (cases "jobs r tid")
  case None
  then show ?thesis by (simp add: observe_def get_task_status_missing)
next
  case (Some j)
  then have "job_ok j" using assms by (simp add: store_ok_def)
  then consider "state j = Finished" | "state j = Failed" | "state j = Started" | "state j = Queued"
    by (auto simp: job_ok_def)
  then show ?thesis
  proof cases
    case 1
    then show ?thesis using Some by (simp add: observe_def get_task_status_finished)
  next
    case 2
    then show ?thesis using Some by (simp add: observe_def get_task_status_failed)
  next
    case 3
    then show ?thesis using Some by (simp add: observe_def get_task_status_started)
  next
    case 4
    then show ?thesis using Some by (simp add: observe_def get_task_status_queued)
  qed
qed

subsection \<open>One step of the lifecycle\<close>

lemma outcome_state: "state (outcome reg j) = Finished \<or> state (outcome reg j) = Failed"
  by (simp add: outcome_def split: option.splits sum.splits)

lemma phase_simps:
  "phase None = 0" "phase (Some ''pending'') = 1" "phase (Some ''in_progress'') = 2"
  "phase (Some ''completed'') = 3" "phase (Some ''failed'') = 3"
  by (simp_all add: phase_def)

lemma advance_same: "jobs r' = jobs r \<Longrightarrow> store_ok r \<Longrightarrow> store_ok r' \<Longrightarrow>
    advance (observe tid r) (observe tid r')"
  by (simp add: observe_store_ok advance_def)

lemma advance_update:
  assumes "jobs r' = (jobs r)(x \<mapsto> j')" "store_ok r" "store_ok r'"
    and "advance (observe x r) (observe x r')"
  shows "advance (observe tid r) (observe tid r')"
proof (cases "tid = x")
  case True
  then show ?thesis using assms(4) by simp
next
  case False
  then have "jobs r' tid = jobs r tid" using assms(1) by simp
  then show ?thesis using assms(2,3) by (simp add: observe_store_ok advance_def)
qed

lemma advance_step:
  assumes ok: "store_ok r" and fresh: "submitted e \<inter> dom (jobs r) = {}"
  shows "advance (observe tid r) (observe tid (step reg e r))"
proof -
  define r' where "r' = step reg e r"
  have ok': "store_ok r'" unfolding r'_def using ok by (rule store_ok_step)
  consider new_id where "submitted e = {new_id}" | "e = Begin" | x where "e = Complete x"
    using submitted_cases [of e] by blast
  then have "advance (observe tid r) (observe tid r')"
  proof cases
    case 1
    then have n: "jobs r new_id = None" using fresh by auto
    have "jobs r' = jobs r \<or> (\<exists>f a. jobs r' =
        (jobs r)(new_id \<mapsto> \<lparr>job_id = new_id, function_ref = f, arguments = a, state = Queued,
                                job_result = None, job_error = None\<rparr>))"
      unfolding r'_def by (rule step_submit_jobs [OF 1])
    then show ?thesis
    proof
      assume "jobs r' = jobs r"
      then show ?thesis using ok ok' by (rule advance_same)
    next
      assume "\<exists>f a. jobs r' =
        (jobs r)(new_id \<mapsto> \<lparr>job_id = new_id, function_ref = f, arguments = a, state = Queued,
                                job_result = None, job_error = None\<rparr>)"
      then obtain f a where u: "jobs r' =
        (jobs r)(new_id \<mapsto> \<lparr>job_id = new_id, function_ref = f, arguments = a, state = Queued,
                                job_result = None, job_error = None\<rparr>)" by blast
      have "observe new_id r = None" using n by (simp add: observe_store_ok [OF ok])
      moreover have "observe new_id r' = Some ''pending''"
        using u by (simp add: observe_store_ok [OF ok'])
      ultimately have "advance (observe new_id r) (observe new_id r')"
        by (simp add: advance_def phase_simps)
      with u ok ok' show ?thesis by (rule advance_update)
    qed
  next
    case 2
    have "jobs r' = jobs r \<or> (\<exists>x j. jobs r x = Some j \<and> state j = Queued \<and>
        jobs r' = (jobs r)(x \<mapsto> j\<lparr>state := Started\<rparr>))"
      unfolding r'_def 2 using worker_begin_jobs [of r] by simp
    then show ?thesis
    proof
      assume "jobs r' = jobs r"
      then show ?thesis using ok ok' by (rule advance_same)
    next
      assume "\<exists>x j. jobs r x = Some j \<and> state j = Queued \<and>
        jobs r' = (jobs r)(x \<mapsto> j\<lparr>state := Started\<rparr>)"
      then obtain x j where j: "jobs r x = Some j" "state j = Queued"
        and u: "jobs r' = (jobs r)(x \<mapsto> j\<lparr>state := Started\<rparr>)" by blast
      have "observe x r = Some ''pending''" using j by (simp add: observe_store_ok [OF ok])
      moreover have "observe x r' = Some ''in_progress''"
        using u by (simp add: observe_store_ok [OF ok'])
      ultimately have "advance (observe x r) (observe x r')"
        by (simp add: advance_def phase_simps)
      with u ok ok' show ?thesis by (rule advance_update)
    qed
  next
    case 3
    have "jobs r' = jobs r \<or> (\<exists>j. jobs r x = Some j \<and> state j = Started \<and>
        jobs r' = (jobs r)(x \<mapsto> outcome reg j))"
      unfolding r'_def 3 using worker_finish_jobs [of reg x r] by simp
    then show ?thesis
    proof
      assume "jobs r' = jobs r"
      then show ?thesis using ok ok' by (rule advance_same)
    next
      assume "\<exists>j. jobs r x = Some j \<and> state j = Started \<and>
        jobs r' = (jobs r)(x \<mapsto> outcome reg j)"
      then obtain j where j: "jobs r x = Some j" "state j = Started"
        and u: "jobs r' = (jobs r)(x \<mapsto> outcome reg j)" by blast
      have "observe x r = Some ''in_progress''" using j by (simp add: observe_store_ok [OF ok])
      moreover have "observe x r' = Some ''completed'' \<or> observe x r' = Some ''failed''"
        using u outcome_state [of reg j] by (auto simp: observe_store_ok [OF ok'])
      ultimately have "advance (observe x r) (observe x r')"
        by (auto simp: advance_def phase_simps)
      with u ok ok' show ?thesis by (rule advance_update)
    qed
  qed
  then show ?thesis by (simp only: r'_def)
qed

lemma fresh_ids_mono: "fresh_ids used evs \<Longrightarrow> used' \<subseteq> used \<Longrightarrow> fresh_ids used' evs"
proof (induction evs arbitrary: used used')
  case Nil
  then show ?case by simp
next
  case (Cons e es)
  have a: "fresh_ids (used \<union> submitted e) es" using Cons.prems(1) by simp
  have b: "used' \<union> submitted e \<subseteq> used \<union> submitted e" using Cons.prems(2) by auto
  have "fresh_ids (used' \<union> submitted e) es" using a b by (rule Cons.IH)
  moreover have "submitted e \<inter> used' = {}" using Cons.prems by auto
  ultimately show ?case by simp
qed

lemma observations_chain:
  "store_ok r \<Longrightarrow> fresh_ids (dom (jobs r)) evs \<Longrightarrow>
     successively advance (observations reg tid evs r)"
proof (induction evs arbitrary: r)
  case Nil
  then show ?case by simp
next
  case (Cons e es)
  have ok: "store_ok (step reg e r)" using Cons.prems(1) by (rule store_ok_step)
  have "fresh_ids (dom (jobs r) \<union> submitted e) es" using Cons.prems(2) by simp
  then have fr: "fresh_ids (dom (jobs (step reg e r))) es"
    using dom_step [of reg e r] by (rule fresh_ids_mono)
  have ih: "successively advance (observations reg tid es (step reg e r))"
    using ok fr by (rule Cons.IH)
  have "submitted e \<inter> dom (jobs r) = {}" using Cons.prems(2) by simp
  with Cons.prems(1) have st: "advance (observe tid r) (observe tid (step reg e r))"
    by (rule advance_step)
  show ?case
  proof (cases es)
    case Nil
    then show ?thesis using st by simp
  next
    case (Cons e' es')
    then show ?thesis using st ih by simp
  qed
qed

lemma advance_reaches: "advance a b \<Longrightarrow> reaches a b"
  by (auto simp: advance_def reaches_def)

lemma reaches_trans: "reaches a b \<Longrightarrow> reaches b c \<Longrightarrow> reaches a c"
  by (auto simp: reaches_def)

subsection \<open>The scenario run\<close>

lemma enqueue_no_fault:
  "enqueue None None new_id f a r =
     (Inr \<lparr>job_id = new_id, function_ref = f, arguments = a, state = Queued,
           job_result = None, job_error = None\<rparr>,
      r\<lparr>jobs := (jobs r)(new_id \<mapsto> \<lparr>job_id = new_id, function_ref = f, arguments = a,
                                      state = Queued, job_result = None, job_error = None\<rparr>),
        pending := pending r @ [new_id]\<rparr>)"
  by (simp add: enqueue_def Store_create_def Queue_push_def Let_def)

lemma submit_primes_state:
  "snd (enqueue_prime_task None None new_id request r) =
     r\<lparr>jobs := (jobs r)(new_id \<mapsto> \<lparr>job_id = new_id, function_ref = ''find_primes_in_range'',
                                     arguments = [request_start request, request_end request],
                                     state = Queued, job_result = None, job_error = None\<rparr>),
       pending := pending r @ [new_id]\<rparr>"
  by (simp add: enqueue_prime_task_def enqueue_response_snd enqueue_no_fault)

lemma submit_fibonacci_state:
  "snd (enqueue_fibonacci_task None None new_id request r) =
     r\<lparr>jobs := (jobs r)(new_id \<mapsto> \<lparr>job_id = new_id, function_ref = ''calculate_fibonacci'',
                                     arguments = [request_n request],
                                     state = Queued, job_result = None, job_error = None\<rparr>),
       pending := pending r @ [new_id]\<rparr>"
  by (simp add: enqueue_fibonacci_task_def enqueue_response_snd enqueue_no_fault)

lemma begin_claims_state:
  "pending r = x # xs \<Longrightarrow> jobs r x = Some j \<Longrightarrow> state j = Queued \<Longrightarrow>
     snd (worker_begin r) = r\<lparr>pending := xs, jobs := (jobs r)(x \<mapsto> j\<lparr>state := Started\<rparr>)\<rparr>"
  by (simp add: worker_begin_def Queue_pop_def)

lemma complete_started_state:
  "jobs r x = Some j \<Longrightarrow> state j = Started \<Longrightarrow>
     worker_finish reg x r = r\<lparr>jobs := (jobs r)(x \<mapsto> outcome reg j)\<rparr>"
  by (simp add: worker_finish_def)

lemmas scenario_eval =
  submit_primes_state submit_fibonacci_state begin_claims_state complete_started_state
  outcome_def scenario_registry_def empty_redis_def

lemma scenario_run:
  "run scenario_registry scenario_events empty_redis =
     \<lparr>jobs = [''job-1'' \<mapsto> \<lparr>job_id = ''job-1'', function_ref = ''find_primes_in_range'',
                               arguments = [1, 1000], state = Finished,
                               job_result = Some 42, job_error = None\<rparr>,
              ''job-2'' \<mapsto> \<lparr>job_id = ''job-2'', function_ref = ''calculate_fibonacci'',
                               arguments = [30], state = Started,
                               job_result = None, job_error = None\<rparr>],
      pending = []\<rparr>"
  by (simp add: scenario_events_def scenario_eval fun_upd_twist)

subsection \<open>The claims\<close>

lemma scenario_job_1:
  "jobs (run scenario_registry scenario_events empty_redis) ''job-1'' =
     Some \<lparr>job_id = ''job-1'', function_ref = ''find_primes_in_range'',
           arguments = [1, 1000], state = Finished, job_result = Some 42, job_error = None\<rparr>"
  by (simp add: scenario_run)




text \<open>
  Claim C1. For every job record of a store that the dispatcher and the executor have
  written, the projection returned by the status endpoint has a result exactly when the
  job has succeeded (reported as \<open>completed\<close>), an error exactly when it has failed, and
  neither while it is queued or running.
\<close>

theorem status_projection_fields:
  assumes "jobs (run reg evs empty_redis) tid = Some j"
  shows "\<exists>resp. fst (get_task_status None tid (run reg evs empty_redis)) = Inr resp
           \<and> (result resp \<noteq> None) = (state j = Finished)
           \<and> (status resp = ''completed'') = (state j = Finished)
           \<and> (error resp \<noteq> None) = (state j = Failed)
           \<and> (status resp = ''failed'') = (state j = Failed)
           \<and> (state j = Queued \<or> state j = Started \<longrightarrow> result resp = None \<and> error resp = None)"
proof -
  have "store_ok (run reg evs empty_redis)"
    using store_ok_empty by (rule store_ok_run)
  then have ok: "job_ok j" using assms by (simp add: store_ok_def)
  then consider "state j = Finished" | "state j = Failed" | "state j = Started" | "state j = Queued"
    by (auto simp: job_ok_def)
  then show ?thesis
  proof cases
    case 1
    then show ?thesis
      using ok get_task_status_finished [OF assms 1] by (simp add: job_ok_def)
  next
    case 2
    then show ?thesis
      using ok get_task_status_failed [OF assms 2] by (simp add: job_ok_def)
  next
    case 3
    then show ?thesis
      using ok get_task_status_started [OF assms 3] by (simp add: job_ok_def)
  next
    case 4
    then show ?thesis
      using ok get_task_status_queued [OF assms 4] by (simp add: job_ok_def)
  qed
qed

theorem status_projection_fields_witness:
  "\<exists>resp. fst (get_task_status None ''job-1''
                 (run scenario_registry scenario_events empty_redis)) = Inr resp
          \<and> result resp \<noteq> None \<and> status resp = ''completed'' \<and> error resp = None"
  using status_projection_fields [OF scenario_job_1] by auto

text \<open>
  Claim C2. Along every run in which the generator hands out unused ids, the states that
  polls of the status endpoint report for an id follow the lifecycle: from one event to
  the next the reported state stays or takes exactly one transition (no record, pending,
  in_progress, then completed or failed), so running is never skipped; and any later
  report is reached from any earlier one, so no report is out of order or goes back,
  however coarsely the poller samples.
\<close>

theorem observed_states_follow_lifecycle:
  assumes "fresh_ids {} evs"
  shows "successively advance (observations reg tid evs empty_redis)
         \<and> sorted_wrt reaches (observations reg tid evs empty_redis)"
proof -
  have "fresh_ids (dom (jobs (empty_redis :: 'a redis))) evs"
    using assms by (simp add: empty_redis_def)
  with store_ok_empty
  have chain: "successively advance (observations reg tid evs empty_redis)"
    by (rule observations_chain)
  then have "successively reaches (observations reg tid evs empty_redis)"
    by (rule successively_mono) (rule advance_reaches)
  moreover have "transp reaches"
    by (rule transpI) (rule reaches_trans)
  ultimately have "sorted_wrt reaches (observations reg tid evs empty_redis)"
    by (simp add: successively_conv_sorted_wrt)
  with chain show ?thesis by simp
qed

lemma observations_not_Nil: "observations reg tid evs r \<noteq> []"
  by (cases evs) simp_all

lemma last_observations: "last (observations reg tid evs r) = observe tid (run reg evs r)"
  by (induction evs arbitrary: r) (simp_all add: observations_not_Nil)

lemma scenario_fresh: "fresh_ids {} (scenario_events @ [Complete ''job-2''])"
  by (simp add: scenario_events_def)

lemma scenario_observations:
  "observations scenario_registry ''job-2'' (scenario_events @ [Complete ''job-2'']) empty_redis =
     [None, None, Some ''pending'', Some ''pending'', Some ''pending'', Some ''in_progress'',
      Some ''failed'']"
  by (simp add: scenario_events_def scenario_eval observe_def get_task_status_def Job_fetch_def
      is_finished_def is_failed_def is_started_def is_queued_def exc_info_def)

theorem observed_states_follow_lifecycle_witness:
  "fresh_ids {} (scenario_events @ [Complete ''job-2''])
   \<and> successively advance
       [None, None, Some ''pending'', Some ''pending'', Some ''pending'', Some ''in_progress'',
        Some ''failed'']
   \<and> sorted_wrt reaches
       [None, None, Some ''pending'', Some ''pending'', Some ''pending'', Some ''in_progress'',
        Some ''failed'']"
proof -
  note t = observed_states_follow_lifecycle [OF scenario_fresh, of scenario_registry "''job-2''"]
  from t have "successively advance
       [None, None, Some ''pending'', Some ''pending'', Some ''pending'', Some ''in_progress'',
        Some ''failed''] \<and> sorted_wrt reaches
       [None, None, Some ''pending'', Some ''pending'', Some ''pending'', Some ''in_progress'',
        Some ''failed'']"
    by (simp only: scenario_observations)
  with scenario_fresh show ?thesis by (rule conjI)
qed

text \<open>
  Claim C3. For every id that no submit call of the run has created, the status
  operation, with the store reachable, returns HTTP 404 with detail \<open>Task not found\<close>, and
  nothing else.
\<close>

theorem status_of_unknown_id:
  assumes "tid \<notin> (\<Union>e \<in> set evs. submitted e)"
  shows "get_task_status None tid (run reg evs empty_redis) =
           (Inl (HTTPException 404 ''Task not found''), run reg evs empty_redis)"
proof -
  have "dom (jobs (run reg evs empty_redis)) \<subseteq>
          dom (jobs (empty_redis :: 'a redis)) \<union> (\<Union>e \<in> set evs. submitted e)"
    by (rule dom_run)
  then have "tid \<notin> dom (jobs (run reg evs empty_redis))"
    using assms by (auto simp: empty_redis_def)
  then have "jobs (run reg evs empty_redis) tid = None" by auto
  then have "fst (get_task_status None tid (run reg evs empty_redis)) =
               Inl (HTTPException 404 ''Task not found'')"
    by (rule get_task_status_missing)
  then show ?thesis
    using get_task_status_read_only [of None tid "run reg evs empty_redis"]
    by (cases "get_task_status None tid (run reg evs empty_redis)") simp
qed

theorem status_of_unknown_id_witness:
  "''not-a-real-id'' \<notin> (\<Union>e \<in> set scenario_events. submitted e)
   \<and> fst (get_task_status None ''not-a-real-id''
            (run scenario_registry scenario_events empty_redis)) =
       Inl (HTTPException 404 ''Task not found'')"
proof -
  have h: "''not-a-real-id'' \<notin> (\<Union>e \<in> set scenario_events. submitted e)"
    by (simp add: scenario_events_def)
  show ?thesis
    using status_of_unknown_id [OF h, of scenario_registry] h by simp
qed






text \<open>
  Claim C6. The status operation is a pure read: it returns the backend as it found it
  (no job state, queue content or store content changes), and a second call right after
  the first returns the identical answer.
\<close>

theorem status_is_pure_read:
  "snd (get_task_status fault tid r) = r
   \<and> jobs (snd (get_task_status fault tid r)) = jobs r
   \<and> pending (snd (get_task_status fault tid r)) = pending r
   \<and> get_task_status fault tid (snd (get_task_status fault tid r)) = get_task_status fault tid r"
  by (simp add: get_task_status_read_only)




end
